theory Spec2Isabelle
  imports Main
begin

section \<open>Exceptions and host functions\<close>

text \<open>
  A \<^verbatim>\<open>throw\<close> of the module is a value of type \<open>exn\<close>. The builder throws
  \<^verbatim>\<open>new Error(message)\<close> with one of two messages; \<open>TypeError\<close> and
  \<open>SyntaxError\<close> are the exceptions of the host functions that \<^verbatim>\<open>fromJSON\<close> calls.
\<close>

datatype exn = Error string | TypeError | SyntaxError

definition DuplicateSelectorPartError :: exn where
  "DuplicateSelectorPartError =
     Error ''Element, id and pseudo-element should not occur more then one time inside the selector''"

definition OutOfOrderError :: exn where
  "OutOfOrderError =
     Error ''Selector parts should be arranged in the following order: element, id, class, attribute, pseudo-class, pseudo-element''"

text \<open>
  The decimal numeral of a natural number: what the host's conversion of a number to a
  string gives for the ranks that \<^verbatim>\<open>join('')\<close> concatenates and for the index keys of
  an array.
\<close>

fun decimal :: "nat \<Rightarrow> string" where
  "decimal n =
     (if n < 10 then [''0123456789'' ! n]
      else decimal (n div 10) @ [''0123456789'' ! (n mod 10)])"

declare decimal.simps [simp del]

definition join :: "nat list \<Rightarrow> string" where
  "join ns = concat (map decimal ns)"

section \<open>Rectangle\<close>

text \<open>
  \<^verbatim>\<open>function Rectangle(width, height) { return { width, height, getArea: () => width * height } }\<close>

  The number type is left open: any type with a multiplication, so that nothing below
  depends on how the multiplication of the host rounds. \<open>getArea\<close> is a closure over the
  two parameters, not over the fields of the object.
\<close>

record 'n rectangle =
  width :: 'n
  height :: 'n
  getArea :: "unit \<Rightarrow> 'n"

definition Rectangle :: "'n::times \<Rightarrow> 'n \<Rightarrow> 'n rectangle" where
  "Rectangle w h = \<lparr>width = w, height = h, getArea = (\<lambda>_. w * h)\<rparr>"

section \<open>The JSON bridge\<close>


subsection \<open>The text of a value\<close>








subsection \<open>Reading a text\<close>

text \<open>
  Modelled from the spec: the host function \<^verbatim>\<open>JSON.parse\<close>, which
  \<^verbatim>\<open>fromJSON\<close> calls and which is not part of the sources. The specification asks
  for a parser of structured text that fails when text is not well-formed structured
  text; \<open>None\<close> is that failure (the host's \<^verbatim>\<open>SyntaxError\<close>). The model reads the
  JSON grammar: white space between tokens, the three literals, numerals without leading
  zeros, strings with every escape of the grammar, arrays and objects, and nothing but
  white space after the value. Outside the model, and rejected: a numeral with a fraction
  or an exponent, and an escaped code unit above \<^verbatim>\<open>00ff\<close>. Members are kept as
  written: the model does not merge two members with the same key or move integer keys
  to the front, as the host does. The first argument of
  \<open>parse_value\<close> bounds the depth of the calls; \<open>JSON_parse\<close> gives it \<open>2 * n + 2\<close> for a
  text of length \<open>n\<close>, which is enough for every text the printer writes.
\<close>

definition is_ws :: "char \<Rightarrow> bool" where
  "is_ws c = (c = CHR 0x20 \<or> c = CHR 0x09 \<or> c = CHR 0x0A \<or> c = CHR 0x0D)"

definition skip_ws :: "string \<Rightarrow> string" where
  "skip_ws s = dropWhile is_ws s"













subsection \<open>The two functions of the module\<close>








section \<open>The selector builder\<close>

subsection \<open>Fragments, arrays and builder objects\<close>

text \<open>
  A fragment is the object literal that each of the six fragment-adding methods builds:
  \<^verbatim>\<open>{ value, unit, tag, specific }\<close>.
\<close>

record fragment =
  "value" :: string
  unit :: string
  tag :: bool
  specific :: nat

text \<open>
  The \<^verbatim>\<open>elems\<close> arrays are mutable and shared by reference (the spread
  \<^verbatim>\<open>{ ...ctx }\<close> copies the reference, \<^verbatim>\<open>push\<close> and
  \<^verbatim>\<open>length = 0\<close> update the array in place), so they live in a store: a map from
  addresses to array contents, with the next unused address.
\<close>

type_synonym addr = nat

record store =
  arrays :: "addr \<Rightarrow> fragment list"
  fresh :: addr

text \<open>
  A builder object is what the constructor returns: its \<^verbatim>\<open>elems\<close> reference and its
  \<^verbatim>\<open>created\<close> flag (absent, hence falsy, on the facade). Its methods are bound
  functions. The constructor binds them with \<^verbatim>\<open>ctx.m.bind(context)\<close>: for the facade
  \<^verbatim>\<open>ctx.m\<close> is the prototype's method and the receiver becomes \<open>context\<close>; for a
  chain object \<^verbatim>\<open>ctx.m\<close> is already bound, binding it again keeps the first receiver,
  and that receiver has the same \<^verbatim>\<open>elems\<close> reference and the same
  \<^verbatim>\<open>created\<close> flag as \<open>context\<close> (the spread copied both and the
  \<^verbatim>\<open>created\<close> branch does not replace \<^verbatim>\<open>elems\<close>). So a method called
  on a builder object always runs with a \<^verbatim>\<open>this\<close> that has the two fields of that
  object. The properties \<^verbatim>\<open>current\<close> and \<^verbatim>\<open>args\<close> that the checks and
  \<^verbatim>\<open>combine\<close> write are never read and are left out.
\<close>

record builder =
  elems :: addr
  created :: bool

definition push :: "store \<Rightarrow> addr \<Rightarrow> fragment \<Rightarrow> store" where
  "push st a x = st\<lparr>arrays := (arrays st)(a := arrays st a @ [x])\<rparr>"

subsection \<open>The two checks\<close>

text \<open>
  \<^verbatim>\<open>checkOneOfType(elems, current)\<close>, lines 149-162. \<open>Inl e\<close> is \<^verbatim>\<open>throw e\<close>,
  \<open>Inr ()\<close> is the normal return. \<^verbatim>\<open>Array.prototype.find\<close> returns the first
  element that satisfies the predicate or \<^verbatim>\<open>undefined\<close>; every fragment is an object,
  hence truthy.
\<close>

definition checkOneOfType :: "fragment list \<Rightarrow> fragment \<Rightarrow> exn + unit" where
  "checkOneOfType es current =
     (let oneType = (tag current = True \<or> unit current = ''::'' \<or> unit current = ''#'') in
      if oneType then
        (let hasInElems =
               find (\<lambda>el. (tag el = tag current \<and> unit el = unit current)
                           \<or> unit el = unit current) es
         in if hasInElems \<noteq> None then Inl DuplicateSelectorPartError else Inr ())
      else Inr ())"

text \<open>
  \<^verbatim>\<open>checkOrder(elems, current)\<close>, lines 164-179. The sort with the comparator
  \<^verbatim>\<open>(a, b) => a.specific - b.specific\<close> is a stable sort on the key
  \<^verbatim>\<open>specific\<close>; \<^verbatim>\<open>filter((el) => el)\<close> keeps the truthy elements, and every
  fragment is truthy; \<^verbatim>\<open>join('')\<close> concatenates the decimal numerals of the ranks.
\<close>

definition checkOrder :: "fragment list \<Rightarrow> fragment \<Rightarrow> exn + unit" where
  "checkOrder es current =
     (let items = es @ [current];
          etalonOrder = map specific (filter (\<lambda>el. True) (sort_key specific items));
          currentOrder = map specific items
      in if join etalonOrder \<noteq> join currentOrder then Inl OutOfOrderError else Inr ())"

subsection \<open>The constructor\<close>

text \<open>
  \<^verbatim>\<open>new CssSelectorBuilder()\<close> (line 273, the branch \<^verbatim>\<open>!current && !ctx\<close>):
  the new object gets a new empty array and no \<^verbatim>\<open>created\<close> property.
\<close>

definition new_CssSelectorBuilder :: "store \<Rightarrow> builder \<times> store" where
  "new_CssSelectorBuilder st =
     (\<lparr>elems = fresh st, created = False\<rparr>,
      st\<lparr>arrays := (arrays st)(fresh st := []), fresh := Suc (fresh st)\<rparr>)"

text \<open>
  \<^verbatim>\<open>new CssSelectorBuilder(current, ctx)\<close> (the six methods, the \<^verbatim>\<open>else\<close>
  branch): \<open>context\<close> is a copy of \<open>ctx\<close>; without \<^verbatim>\<open>created\<close> it gets a new
  array, with it the two checks run on the shared array; then the fragment is pushed and
  \<open>context\<close> is returned with \<^verbatim>\<open>created = true\<close>. A check that throws leaves the
  constructor before the push.
\<close>

definition CssSelectorBuilder :: "store \<Rightarrow> fragment \<Rightarrow> builder \<Rightarrow> (exn + builder) \<times> store" where
  "CssSelectorBuilder st current ctx =
     (if \<not> created ctx then
        (let context = ctx\<lparr>elems := fresh st\<rparr>;
             st1 = st\<lparr>arrays := (arrays st)(fresh st := []), fresh := Suc (fresh st)\<rparr>
         in (Inr (context\<lparr>created := True\<rparr>), push st1 (elems context) current))
      else
        (let context = ctx in
         case checkOneOfType (arrays st (elems context)) current of
           Inl e \<Rightarrow> (Inl e, st)
         | Inr _ \<Rightarrow>
            (case checkOrder (arrays st (elems context)) current of
               Inl e \<Rightarrow> (Inl e, st)
             | Inr _ \<Rightarrow> (Inr (context\<lparr>created := True\<rparr>), push st (elems context) current))))"

subsection \<open>The methods\<close>

text \<open>
  \<^verbatim>\<open>stringify()\<close>, lines 181-187: copy the array, empty it in place, render the copy.
\<close>

definition stringify :: "store \<Rightarrow> builder \<Rightarrow> string \<times> store" where
  "stringify st this =
     (let current = arrays st (elems this);
          st' = st\<lparr>arrays := (arrays st)(elems this := [])\<rparr>
      in (concat (map (\<lambda>el. unit el @ value el) current), st'))"

definition element :: "store \<Rightarrow> builder \<Rightarrow> string \<Rightarrow> (exn + builder) \<times> store" where
  "element st this el =
     (let obj = \<lparr>value = el, unit = '''', tag = True, specific = 0\<rparr>
      in CssSelectorBuilder st obj this)"

definition id' :: "store \<Rightarrow> builder \<Rightarrow> string \<Rightarrow> (exn + builder) \<times> store" where
  "id' st this i =
     (let obj = \<lparr>value = i, unit = ''#'', tag = False, specific = 1\<rparr>
      in CssSelectorBuilder st obj this)"

definition class' :: "store \<Rightarrow> builder \<Rightarrow> string \<Rightarrow> (exn + builder) \<times> store" where
  "class' st this cl =
     (let obj = \<lparr>value = cl, unit = ''.'', tag = False, specific = 2\<rparr>
      in CssSelectorBuilder st obj this)"

definition attr :: "store \<Rightarrow> builder \<Rightarrow> string \<Rightarrow> (exn + builder) \<times> store" where
  "attr st this ar =
     (let obj = \<lparr>value = ''['' @ ar @ '']'', unit = '''', tag = False, specific = 3\<rparr>
      in CssSelectorBuilder st obj this)"

definition pseudoClass :: "store \<Rightarrow> builder \<Rightarrow> string \<Rightarrow> (exn + builder) \<times> store" where
  "pseudoClass st this pseudoCl =
     (let obj = \<lparr>value = pseudoCl, unit = '':'', tag = False, specific = 4\<rparr>
      in CssSelectorBuilder st obj this)"

definition pseudoElement :: "store \<Rightarrow> builder \<Rightarrow> string \<Rightarrow> (exn + builder) \<times> store" where
  "pseudoElement st this pseudoEl =
     (let obj = \<lparr>value = pseudoEl, unit = ''::'', tag = False, specific = 5\<rparr>
      in CssSelectorBuilder st obj this)"

text \<open>
  \<^verbatim>\<open>combine(...args)\<close>, lines 255-270. An argument is a string, a builder object
  (\<^verbatim>\<open>typeof item === 'object' && item.stringify\<close>: the facade or a chain object) or the
  result of an earlier \<^verbatim>\<open>combine\<close>, which has a \<^verbatim>\<open>stringify\<close> too.
  \<^verbatim>\<open>args.map\<close> visits the arguments from left to right; rendering a builder object
  empties its array. The result holds the pieces in \<^verbatim>\<open>data\<close>; its
  \<^verbatim>\<open>stringify()\<close> is \<^verbatim>\<open>this.data.flat().join('')\<close>, and \<^verbatim>\<open>flat()\<close>
  changes nothing in an array of strings.
\<close>

record combined =
  data :: "string list"

datatype item = Str string | Sel builder | Comb combined

definition stringify_combined :: "combined \<Rightarrow> string" where
  "stringify_combined this = concat (data this)"

fun combine_map :: "store \<Rightarrow> item list \<Rightarrow> string list \<times> store" where
  "combine_map st [] = ([], st)"
| "combine_map st (Str s # items) =
     (let (ds, st') = combine_map st items in (('' '' @ s @ '' '') # ds, st'))"
| "combine_map st (Sel b # items) =
     (let (d, st1) = stringify st b; (ds, st') = combine_map st1 items in (d # ds, st'))"
| "combine_map st (Comb c # items) =
     (let (ds, st') = combine_map st items in (stringify_combined c # ds, st'))"

definition combine :: "store \<Rightarrow> item list \<Rightarrow> combined \<times> store" where
  "combine st args = (let (d, st') = combine_map st args in (\<lparr>data = d\<rparr>, st'))"

subsection \<open>The module\<close>

text \<open>
  \<^verbatim>\<open>const cssSelectorBuilder = new CssSelectorBuilder()\<close>: the facade and the store
  the module starts with.
\<close>

definition empty_store :: store where
  "empty_store = \<lparr>arrays = (\<lambda>_. []), fresh = 0\<rparr>"

definition cssSelectorBuilder :: builder where
  "cssSelectorBuilder = fst (new_CssSelectorBuilder empty_store)"

definition init_store :: store where
  "init_store = snd (new_CssSelectorBuilder empty_store)"

subsection \<open>Calls and chains\<close>

text \<open>
  A fragment-adding call is the kind of the method and its argument; \<open>invoke\<close> calls the
  method of that kind. \<open>chain\<close> is \<^verbatim>\<open>b.m1(v1).m2(v2)...\<close>: each call is made on the
  object the call before returned, and an exception ends the chain.
  \<open>chain_stringify\<close> is the chain followed by \<^verbatim>\<open>.stringify()\<close>.
\<close>

datatype kind =
  ElementKind | IdKind | ClassKind | AttributeKind | PseudoClassKind | PseudoElementKind

type_synonym call = "kind \<times> string"

fun invoke :: "store \<Rightarrow> builder \<Rightarrow> call \<Rightarrow> (exn + builder) \<times> store" where
  "invoke st b (ElementKind, v) = element st b v"
| "invoke st b (IdKind, v) = id' st b v"
| "invoke st b (ClassKind, v) = class' st b v"
| "invoke st b (AttributeKind, v) = attr st b v"
| "invoke st b (PseudoClassKind, v) = pseudoClass st b v"
| "invoke st b (PseudoElementKind, v) = pseudoElement st b v"

fun chain :: "store \<Rightarrow> builder \<Rightarrow> call list \<Rightarrow> (exn + builder) \<times> store" where
  "chain st b [] = (Inr b, st)"
| "chain st b (c # cs) =
     (case invoke st b c of
        (Inl e, st') \<Rightarrow> (Inl e, st')
      | (Inr b', st') \<Rightarrow> chain st' b' cs)"

definition chain_stringify :: "store \<Rightarrow> builder \<Rightarrow> call list \<Rightarrow> exn + string" where
  "chain_stringify st b cs =
     (case chain st b cs of
        (Inl e, st') \<Rightarrow> Inl e
      | (Inr b', st') \<Rightarrow> Inr (fst (stringify st' b')))"

subsection \<open>The specified data model\<close>

text \<open>
  The fragment table as the specification words it: per kind a prefix glyph, an order
  rank and the element flag; the value of an attribute fragment is the expression in
  brackets. \<open>spec_render\<close> is the prefix glyph followed by the value; the one-of-a-kind
  kinds are element, id and pseudo-element. \<open>combined_text\<close> is the specified text of a
  combination: the arguments in order, a token with one space on each side, a selector
  rendered by its \<open>stringify()\<close> at that moment.
\<close>

fun prefixGlyph :: "kind \<Rightarrow> string" where
  "prefixGlyph ElementKind = ''''"
| "prefixGlyph IdKind = ''#''"
| "prefixGlyph ClassKind = ''.''"
| "prefixGlyph AttributeKind = ''''"
| "prefixGlyph PseudoClassKind = '':''"
| "prefixGlyph PseudoElementKind = ''::''"

fun orderRank :: "kind \<Rightarrow> nat" where
  "orderRank ElementKind = 0"
| "orderRank IdKind = 1"
| "orderRank ClassKind = 2"
| "orderRank AttributeKind = 3"
| "orderRank PseudoClassKind = 4"
| "orderRank PseudoElementKind = 5"

fun isElementKind :: "kind \<Rightarrow> bool" where
  "isElementKind k = (k = ElementKind)"

fun fragment_value :: "call \<Rightarrow> string" where
  "fragment_value (AttributeKind, v) = ''['' @ v @ '']''"
| "fragment_value (k, v) = v"

definition fragment_of :: "call \<Rightarrow> fragment" where
  "fragment_of c =
     \<lparr>value = fragment_value c, unit = prefixGlyph (fst c),
      tag = isElementKind (fst c), specific = orderRank (fst c)\<rparr>"

definition spec_render :: "call \<Rightarrow> string" where
  "spec_render c = prefixGlyph (fst c) @ fragment_value c"

definition one_of_a_kind :: "kind \<Rightarrow> bool" where
  "one_of_a_kind k = (k = ElementKind \<or> k = IdKind \<or> k = PseudoElementKind)"

text \<open>
  The two rules of a compound selector as the specification words them: the ranks in
  append order are in ascending order, and no one-of-a-kind kind occurs twice.
\<close>

definition legal :: "call list \<Rightarrow> bool" where
  "legal cs =
     (sorted (map (\<lambda>c. orderRank (fst c)) cs) \<and> distinct (filter one_of_a_kind (map fst cs)))"

fun combined_text :: "store \<Rightarrow> item list \<Rightarrow> string" where
  "combined_text st [] = ''''"
| "combined_text st (Str t # items) = '' '' @ t @ '' '' @ combined_text st items"
| "combined_text st (Sel b # items) =
     fst (stringify st b) @ combined_text (snd (stringify st b)) items"
| "combined_text st (Comb c # items) = stringify_combined c @ combined_text st items"

subsection \<open>Client programs\<close>

text \<open>
  What a client of the module can do with the builder: call a fragment-adding method, call
  \<open>stringify()\<close> or call \<open>combine\<close>, each on objects it already holds (at first the
  facade only), in any order; it may catch an exception and go on. A world is the store
  together with the builder objects handed out so far.
\<close>

record world =
  heap :: store
  objs :: "builder list"

datatype client_op = Append builder call | Render builder | Combine "item list"

fun known :: "world \<Rightarrow> item \<Rightarrow> bool" where
  "known w (Sel b) = (b \<in> set (objs w))"
| "known w (Str s) = True"
| "known w (Comb c) = True"

fun client_step :: "world \<Rightarrow> client_op \<Rightarrow> world" where
  "client_step w (Append b c) =
     (if b \<in> set (objs w) then
        (case invoke (heap w) b c of
           (Inr b', st') \<Rightarrow> \<lparr>heap = st', objs = b' # objs w\<rparr>
         | (Inl e, st') \<Rightarrow> \<lparr>heap = st', objs = objs w\<rparr>)
      else w)"
| "client_step w (Render b) =
     (if b \<in> set (objs w) then \<lparr>heap = snd (stringify (heap w) b), objs = objs w\<rparr> else w)"
| "client_step w (Combine args) =
     (if list_all (known w) args then \<lparr>heap = snd (combine (heap w) args), objs = objs w\<rparr> else w)"

definition init_world :: world where
  "init_world = \<lparr>heap = init_store, objs = [cssSelectorBuilder]\<rparr>"

definition run_client :: "client_op list \<Rightarrow> world" where
  "run_client ops = foldl client_step init_world ops"

text \<open>
  The invariants of client programs: an object with \<^verbatim>\<open>created\<close> has an allocated
  array that is not the facade's, the only object without it is the facade, the facade's
  array is empty, and every fragment in the store was built by one of the six methods.
\<close>

definition chain_object :: "store \<Rightarrow> builder \<Rightarrow> bool" where
  "chain_object st b =
     (if created b then elems b \<noteq> elems cssSelectorBuilder \<and> elems b < fresh st
      else b = cssSelectorBuilder)"

definition facade_untouched :: "world \<Rightarrow> bool" where
  "facade_untouched w =
     (arrays (heap w) (elems cssSelectorBuilder) = [] \<and>
      elems cssSelectorBuilder < fresh (heap w) \<and>
      list_all (chain_object (heap w)) (objs w))"

definition built_by_methods :: "store \<Rightarrow> bool" where
  "built_by_methods st = (\<forall>a. set (arrays st a) \<subseteq> range fragment_of)"

section \<open>Lemmas\<close>

subsection \<open>Joined ranks\<close>

lemma decimal_digit: "n < 10 \<Longrightarrow> decimal n = [''0123456789'' ! n]"
  by (simp add: decimal.simps)

lemma lt10_cases: "(n::nat) < 10 \<Longrightarrow> n \<in> {0, 1, 2, 3, 4, 5, 6, 7, 8, 9}"
  by auto

lemma digit_inj:
  "m < 10 \<Longrightarrow> n < 10 \<Longrightarrow> ''0123456789'' ! m = ''0123456789'' ! n \<Longrightarrow> m = n"
  by (drule lt10_cases, drule lt10_cases) auto

lemma join_digits: "\<forall>n\<in>set ns. n < 10 \<Longrightarrow> join ns = map (\<lambda>n. ''0123456789'' ! n) ns"
  unfolding join_def by (induction ns) (simp_all add: decimal_digit)

lemma join_inj:
  assumes "\<forall>n\<in>set ms. n < 10" "\<forall>n\<in>set ns. n < 10" "join ms = join ns"
  shows "ms = ns"
proof -
  have "map (\<lambda>n. ''0123456789'' ! n) ms = map (\<lambda>n. ''0123456789'' ! n) ns"
    using assms by (simp add: join_digits)
  moreover have "inj_on (\<lambda>n. ''0123456789'' ! n) (set ms \<union> set ns)"
    using assms(1,2) by (auto intro!: inj_onI digit_inj)
  ultimately show ?thesis
    by (rule inj_on_map_eq_map [THEN iffD1, rotated])
qed

subsection \<open>The checks\<close>

lemma checkOrder_sorted:
  "sorted (map specific (es @ [current])) \<Longrightarrow> checkOrder es current = Inr ()"
  by (simp add: checkOrder_def Let_def sort_key_id_if_sorted)

lemma checkOrder_unsorted:
  assumes "\<not> sorted (map specific (es @ [current]))"
    and "\<forall>f\<in>set es. specific f < 10" and "specific current < 10"
  shows "checkOrder es current = Inl OutOfOrderError"
proof -
  let ?items = "es @ [current]"
  let ?etalon = "map specific (filter (\<lambda>el. True) (sort_key specific ?items))"
  have "sorted ?etalon" by simp
  then have ne: "?etalon \<noteq> map specific ?items" using assms(1) by metis
  have "\<forall>n\<in>set ?etalon. n < 10" using assms(2,3) by auto
  moreover have "\<forall>n\<in>set (map specific ?items). n < 10" using assms(2,3) by auto
  ultimately have "join ?etalon \<noteq> join (map specific ?items)"
    using ne join_inj by blast
  then show ?thesis by (simp add: checkOrder_def Let_def)
qed

lemma not_sorted_snoc:
  assumes "\<exists>f\<in>set es. specific cur < specific f"
  shows "\<not> sorted (map specific (es @ [cur]))"
proof
  assume "sorted (map specific (es @ [cur]))"
  then have "\<forall>f\<in>set es. specific f \<le> specific cur"
    by (simp add: sorted_append)
  with assms show False by force
qed

lemma find_same_unit:
  "find (\<lambda>el. (tag el = t \<and> unit el = u) \<or> unit el = u) es \<noteq> None \<longleftrightarrow>
     (\<exists>el\<in>set es. unit el = u)"
  by (auto simp: find_None_iff)

lemma checkOneOfType_cases:
  "checkOneOfType es cur = Inr () \<or> checkOneOfType es cur = Inl DuplicateSelectorPartError"
  by (simp add: checkOneOfType_def Let_def)

subsection \<open>The methods build the specified fragments\<close>

lemma invoke_fragment_of: "invoke st b c = CssSelectorBuilder st (fragment_of c) b"
  by (cases "(st, b, c)" rule: invoke.cases)
     (simp_all add: fragment_of_def element_def id'_def class'_def attr_def
        pseudoClass_def pseudoElement_def)

lemma render_fragment_of: "unit (fragment_of c) @ value (fragment_of c) = spec_render c"
  by (simp add: fragment_of_def spec_render_def)

lemma specific_fragment_of: "specific (fragment_of c) = orderRank (fst c)"
  by (simp add: fragment_of_def)

lemma unit_fragment_of: "unit (fragment_of (k, v)) = prefixGlyph k"
  by (simp add: fragment_of_def)

lemma orderRank_le: "orderRank k \<le> 5"
  by (cases k) simp_all

lemma checkOneOfType_fragment_of:
  "checkOneOfType es (fragment_of (k, v)) =
     (if one_of_a_kind k \<and> (\<exists>el\<in>set es. unit el = prefixGlyph k)
      then Inl DuplicateSelectorPartError else Inr ())"
  unfolding checkOneOfType_def Let_def find_same_unit
  by (cases k) (simp_all add: fragment_of_def one_of_a_kind_def)

lemma render_fragments:
  "concat (map ((\<lambda>el. unit el @ value el) \<circ> fragment_of) cs) = concat (map spec_render cs)"
  by (simp add: comp_def render_fragment_of)

subsection \<open>What a constructor call does\<close>

lemma CssSelectorBuilder_created:
  assumes "created ctx" "CssSelectorBuilder st cur ctx = (Inr b', st')"
  shows "b' = ctx \<and> st' = push st (elems ctx) cur"
  using assms
  by (auto simp: CssSelectorBuilder_def Let_def split: sum.splits if_splits)

lemma CssSelectorBuilder_facade:
  assumes "\<not> created ctx"
  shows "CssSelectorBuilder st cur ctx =
    (Inr \<lparr>elems = fresh st, created = True\<rparr>,
     st\<lparr>arrays := (arrays st)(fresh st := [cur]), fresh := Suc (fresh st)\<rparr>)"
  using assms by (simp add: CssSelectorBuilder_def Let_def push_def)

lemma CssSelectorBuilder_fails:
  assumes "CssSelectorBuilder st cur ctx = (Inl e, st')"
  shows "st' = st \<and> created ctx \<and> (e = DuplicateSelectorPartError \<or> e = OutOfOrderError)"
  using assms
  by (auto simp: CssSelectorBuilder_def Let_def checkOneOfType_def checkOrder_def
      split: sum.splits if_splits)

lemma CssSelectorBuilder_duplicate:
  assumes "created ctx" "checkOneOfType (arrays st (elems ctx)) cur = Inl e"
  shows "CssSelectorBuilder st cur ctx = (Inl e, st)"
  using assms by (simp add: CssSelectorBuilder_def)

lemma CssSelectorBuilder_order:
  assumes "created ctx" "checkOneOfType (arrays st (elems ctx)) cur = Inr ()"
    "checkOrder (arrays st (elems ctx)) cur = Inl e"
  shows "CssSelectorBuilder st cur ctx = (Inl e, st)"
  using assms by (simp add: CssSelectorBuilder_def)

lemma invoke_created:
  assumes "created b" "invoke st b c = (Inr b', st')"
  shows "b' = b \<and> st' = push st (elems b) (fragment_of c)"
  using assms CssSelectorBuilder_created by (simp add: invoke_fragment_of)

lemma invoke_facade:
  assumes "\<not> created b"
  shows "invoke st b c =
    (Inr \<lparr>elems = fresh st, created = True\<rparr>,
     st\<lparr>arrays := (arrays st)(fresh st := [fragment_of c]), fresh := Suc (fresh st)\<rparr>)"
  using assms by (simp add: invoke_fragment_of CssSelectorBuilder_facade)

lemma invoke_fails:
  assumes "invoke st b c = (Inl e, st')"
  shows "st' = st \<and> created b \<and> (e = DuplicateSelectorPartError \<or> e = OutOfOrderError)"
  using assms CssSelectorBuilder_fails by (simp add: invoke_fragment_of)

lemma invoke_returns_created:
  assumes "invoke st b c = (Inr b', st')"
  shows "created b'"
proof (cases "created b")
  case True
  from invoke_created [OF True assms] True show ?thesis by simp
next
  case False
  from invoke_facade [OF False, of st c] assms show ?thesis by auto
qed

lemma invoke_frame:
  assumes "created b" "a \<noteq> elems b"
  shows "arrays (snd (invoke st b c)) a = arrays st a"
proof (cases "invoke st b c")
  case (Pair r st')
  show ?thesis
  proof (cases r)
    case (Inl e)
    with Pair invoke_fails [of st b c e st'] show ?thesis by simp
  next
    case (Inr b')
    with Pair invoke_created [OF assms(1), of st c b' st'] assms(2) show ?thesis
      by (simp add: push_def)
  qed
qed

subsection \<open>Chains\<close>

lemma stringify_text:
  "fst (stringify st b) = concat (map (\<lambda>el. unit el @ value el) (arrays st (elems b)))"
  by (simp add: stringify_def)

lemma stringify_keeps_empty:
  "arrays st a = [] \<Longrightarrow> arrays (snd (stringify st b)) a = []"
  by (simp add: stringify_def)

lemma stringify_empties: "arrays (snd (stringify st b)) (elems b) = []"
  by (simp add: stringify_def)

lemma chain_created:
  assumes "created b" "chain st b cs = (Inr b', st')"
  shows "b' = b \<and> arrays st' (elems b) = arrays st (elems b) @ map fragment_of cs"
  using assms
proof (induction cs arbitrary: st)
  case Nil
  then show ?case by simp
next
  case (Cons c cs)
  obtain r st1 where inv: "invoke st b c = (r, st1)" by (cases "invoke st b c")
  with Cons.prems obtain b1 where r: "r = Inr b1" and rest: "chain st1 b1 cs = (Inr b', st')"
    by (cases r) auto
  from invoke_created [OF Cons.prems(1) inv [unfolded r]]
  have b1: "b1 = b" and st1: "st1 = push st (elems b) (fragment_of c)" by simp_all
  from Cons.IH [OF Cons.prems(1) rest [unfolded b1]]
  show ?case by (simp add: st1 push_def)
qed

lemma chain_facade:
  assumes "\<not> created b" "chain st b (c # cs) = (Inr b', st')"
  shows "arrays st' (elems b') = map fragment_of (c # cs)"
proof -
  let ?b1 = "\<lparr>elems = fresh st, created = True\<rparr>"
  let ?st1 = "st\<lparr>arrays := (arrays st)(fresh st := [fragment_of c]), fresh := Suc (fresh st)\<rparr>"
  have rest: "chain ?st1 ?b1 cs = (Inr b', st')"
    using assms by (simp add: invoke_facade)
  have "created ?b1" by simp
  from chain_created [OF this rest] show ?thesis by simp
qed

lemma chain_frame:
  assumes "created b" "a \<noteq> elems b"
  shows "arrays (snd (chain st b cs)) a = arrays st a"
  using assms
proof (induction cs arbitrary: st)
  case Nil
  show ?case by simp
next
  case (Cons c cs)
  obtain r st1 where inv: "invoke st b c = (r, st1)" by (cases "invoke st b c")
  have fr: "arrays st1 a = arrays st a"
    using invoke_frame [OF Cons.prems, of st c] inv by simp
  show ?case
  proof (cases r)
    case (Inl e)
    with inv fr show ?thesis by simp
  next
    case (Inr b')
    with invoke_created [OF Cons.prems(1), of st c b' st1] inv have "b' = b" by simp
    with Inr inv fr Cons.IH [OF Cons.prems, of st1] show ?thesis by simp
  qed
qed

lemma chain_stringify_Inr:
  "chain_stringify st b cs = Inr s \<longleftrightarrow>
    (\<exists>b' st'. chain st b cs = (Inr b', st') \<and> s = fst (stringify st' b'))"
  by (auto simp: chain_stringify_def split: prod.splits sum.splits)

subsection \<open>Legal chains go through, the others throw\<close>

lemma legal_prefix: "legal (xs @ ys) \<Longrightarrow> legal xs"
  by (auto simp: legal_def sorted_append)

lemma legal_single: "legal [c]"
  by (simp add: legal_def)

lemma map_specific_fragment_of:
  "map specific (map fragment_of cs) = map (\<lambda>c. orderRank (fst c)) cs"
  by (simp add: specific_fragment_of)

lemma same_glyph_kinds:
  assumes "one_of_a_kind k" "prefixGlyph k' = prefixGlyph k"
  shows "k' = k \<or> (k = ElementKind \<and> k' = AttributeKind)"
  using assms by (cases k; cases k') (simp_all add: one_of_a_kind_def)

lemma checkOneOfType_legal:
  assumes "legal (cs0 @ [c])"
  shows "checkOneOfType (map fragment_of cs0) (fragment_of c) = Inr ()"
proof -
  obtain k v where c: "c = (k, v)" by (cases c)
  have "\<not> (one_of_a_kind k \<and> (\<exists>el\<in>set (map fragment_of cs0). unit el = prefixGlyph k))"
  proof
    assume h: "one_of_a_kind k \<and> (\<exists>el\<in>set (map fragment_of cs0). unit el = prefixGlyph k)"
    then obtain k' v' where mem: "(k', v') \<in> set cs0" and g: "prefixGlyph k' = prefixGlyph k"
      by (auto simp: unit_fragment_of)
    from same_glyph_kinds [OF h [THEN conjunct1] g]
    show False
    proof
      assume "k' = k"
      with mem have "k \<in> set (filter one_of_a_kind (map fst cs0))" using h by force
      with assms h show False by (auto simp: legal_def c)
    next
      assume "k = ElementKind \<and> k' = AttributeKind"
      with mem have "\<exists>x\<in>set cs0. orderRank (fst c) < orderRank (fst x)"
        by (auto simp: c intro!: bexI [of _ "(k', v')"])
      with assms show False by (auto simp: legal_def sorted_append)
    qed
  qed
  then show ?thesis by (simp add: c checkOneOfType_fragment_of del: set_map)
qed

lemma checkOrder_legal:
  assumes "legal (cs0 @ [c])"
  shows "checkOrder (map fragment_of cs0) (fragment_of c) = Inr ()"
proof -
  have "map specific (map fragment_of cs0 @ [fragment_of c]) = map (\<lambda>c. orderRank (fst c)) (cs0 @ [c])"
    by (simp add: specific_fragment_of)
  with assms show ?thesis
    by (intro checkOrder_sorted) (simp only: legal_def)
qed

lemma append_goes_through:
  assumes "created b" "arrays st (elems b) = map fragment_of cs0" "legal (cs0 @ [c])"
  shows "invoke st b c = (Inr b, push st (elems b) (fragment_of c))"
  using assms checkOneOfType_legal [OF assms(3)] checkOrder_legal [OF assms(3)]
  by (simp add: invoke_fragment_of CssSelectorBuilder_def)

lemma append_refused:
  assumes cr: "created b" and es: "arrays st (elems b) = map fragment_of cs0"
    and l0: "legal cs0" and nl: "\<not> legal (cs0 @ [c])"
  shows "\<exists>e. invoke st b c = (Inl e, st) \<and> (e = DuplicateSelectorPartError \<or> e = OutOfOrderError)"
proof -
  obtain k v where c: "c = (k, v)" by (cases c)
  let ?es = "map fragment_of cs0" and ?cur = "fragment_of c"
  show ?thesis
  proof (cases "sorted (map (\<lambda>c. orderRank (fst c)) (cs0 @ [c]))")
    case False
    then have ns: "\<not> sorted (map specific (?es @ [?cur]))"
      by (simp add: specific_fragment_of comp_def)
    have "\<forall>f\<in>set ?es. specific f < 10"
    proof
      fix f assume "f \<in> set ?es"
      then obtain x where "f = fragment_of x" by auto
      then show "specific f < 10"
        using orderRank_le [of "fst x"] by (simp add: specific_fragment_of)
    qed
    moreover have "specific ?cur < 10"
      using orderRank_le [of "fst c"] by (simp add: specific_fragment_of)
    ultimately have order: "checkOrder ?es ?cur = Inl OutOfOrderError"
      using checkOrder_unsorted [OF ns] by blast
    from checkOneOfType_cases [of ?es ?cur] show ?thesis
    proof
      assume "checkOneOfType ?es ?cur = Inr ()"
      from CssSelectorBuilder_order [OF cr this [folded es] order [folded es]]
      show ?thesis by (simp add: invoke_fragment_of)
    next
      assume "checkOneOfType ?es ?cur = Inl DuplicateSelectorPartError"
      from CssSelectorBuilder_duplicate [OF cr this [folded es]]
      show ?thesis by (simp add: invoke_fragment_of)
    qed
  next
    case True
    with nl l0 have "one_of_a_kind k \<and> k \<in> set (map fst cs0)"
      by (auto simp: legal_def c split: if_splits)
    then obtain v' where "one_of_a_kind k" "(k, v') \<in> set cs0" by auto
    then have "checkOneOfType ?es ?cur = Inl DuplicateSelectorPartError"
      by (auto simp: c checkOneOfType_fragment_of unit_fragment_of
          intro!: bexI [of _ "(k, v')"])
    from CssSelectorBuilder_duplicate [OF cr this [folded es]]
    show ?thesis by (simp add: invoke_fragment_of)
  qed
qed

lemma chain_stringify_step:
  assumes "invoke st b c = (Inr b', st')"
  shows "chain_stringify st b (c # cs) = chain_stringify st' b' cs"
  using assms by (simp add: chain_stringify_def)

lemma chain_stringify_fail:
  assumes "invoke st b c = (Inl e, st')"
  shows "chain_stringify st b (c # cs) = Inl e"
  using assms by (simp add: chain_stringify_def)

lemma legal_chain_renders:
  assumes "created b" "arrays st (elems b) = map fragment_of cs0" "legal (cs0 @ cs)"
  shows "chain_stringify st b cs = Inr (concat (map spec_render (cs0 @ cs)))"
  using assms
proof (induction cs arbitrary: st cs0)
  case Nil
  then show ?case
    by (simp add: chain_stringify_def stringify_text render_fragments)
next
  case (Cons c cs)
  from Cons.prems(3) have l1: "legal (cs0 @ [c])"
    using legal_prefix [of "cs0 @ [c]" cs] by simp
  note step = append_goes_through [OF Cons.prems(1,2) l1]
  have "arrays (push st (elems b) (fragment_of c)) (elems b) = map fragment_of (cs0 @ [c])"
    by (simp add: push_def Cons.prems(2))
  from Cons.IH [OF Cons.prems(1) this] Cons.prems(3)
  show ?case by (simp add: chain_stringify_step [OF step])
qed

lemma illegal_chain_throws:
  assumes "created b" "arrays st (elems b) = map fragment_of cs0" "legal cs0" "\<not> legal (cs0 @ cs)"
  shows "\<exists>e. chain_stringify st b cs = Inl e \<and>
           (e = DuplicateSelectorPartError \<or> e = OutOfOrderError)"
  using assms
proof (induction cs arbitrary: st cs0)
  case Nil
  then show ?case by simp
next
  case (Cons c cs)
  show ?case
  proof (cases "legal (cs0 @ [c])")
    case False
    from append_refused [OF Cons.prems(1,2,3) False]
    show ?thesis by (auto simp: chain_stringify_fail)
  next
    case True
    note step = append_goes_through [OF Cons.prems(1,2) True]
    have "arrays (push st (elems b) (fragment_of c)) (elems b) = map fragment_of (cs0 @ [c])"
      by (simp add: push_def Cons.prems(2))
    from Cons.IH [OF Cons.prems(1) this True] Cons.prems(4)
    show ?thesis by (simp add: chain_stringify_step [OF step])
  qed
qed

lemma facade_first_call:
  assumes "\<not> created b"
  shows "\<exists>b1 st1. invoke st b c = (Inr b1, st1) \<and> created b1 \<and>
           arrays st1 (elems b1) = map fragment_of [c]"
  using invoke_facade [OF assms, of st c] by simp

subsection \<open>Combinations\<close>

lemma combine_map_text: "concat (fst (combine_map st args)) = combined_text st args"
proof (induction args arbitrary: st)
  case Nil
  show ?case by simp
next
  case (Cons i items)
  show ?case by (cases i) (simp_all add: split_beta Cons.IH)
qed

lemma combine_map_keeps_empty:
  "arrays st a = [] \<Longrightarrow> arrays (snd (combine_map st args)) a = []"
proof (induction args arbitrary: st)
  case Nil
  then show ?case by simp
next
  case (Cons i items)
  then show ?case by (cases i) (simp_all add: split_beta stringify_keeps_empty)
qed

lemma combine_map_empties:
  "Sel b \<in> set args \<Longrightarrow> arrays (snd (combine_map st args)) (elems b) = []"
proof (induction args arbitrary: st)
  case Nil
  then show ?case by simp
next
  case (Cons i items)
  show ?case
  proof (cases "i = Sel b")
    case True
    then show ?thesis
      by (simp add: split_beta combine_map_keeps_empty stringify_empties)
  next
    case False
    with Cons.prems have "Sel b \<in> set items" by simp
    from Cons.IH [OF this] show ?thesis by (cases i) (simp_all add: split_beta)
  qed
qed

subsection \<open>Evaluation at the module's initial state\<close>

lemma eval_init [simp]:
  "cssSelectorBuilder = \<lparr>elems = 0, created = False\<rparr>"
  "arrays init_store = (\<lambda>_. [])" "fresh init_store = Suc 0"
  by (simp_all add: cssSelectorBuilder_def init_store_def new_CssSelectorBuilder_def
      empty_store_def fun_eq_iff)

lemmas eval_defs =
  chain_stringify_def element_def id'_def class'_def attr_def pseudoClass_def pseudoElement_def
  fragment_of_def CssSelectorBuilder_def stringify_def
  push_def checkOneOfType_def checkOrder_def join_def decimal.simps Let_def
  DuplicateSelectorPartError_def OutOfOrderError_def

subsection \<open>Invariants of client programs\<close>

lemma facade_untouched_init: "facade_untouched init_world"
  by (simp add: facade_untouched_def init_world_def chain_object_def)

lemma fresh_stringify [simp]: "fresh (snd (stringify st b)) = fresh st"
  by (simp add: stringify_def)

lemma fresh_combine_map [simp]: "fresh (snd (combine_map st args)) = fresh st"
proof (induction args arbitrary: st)
  case Nil
  show ?case by simp
next
  case (Cons i items)
  show ?case by (cases i) (simp_all add: split_beta Cons.IH)
qed

lemma facade_untouched_step:
  assumes "facade_untouched w"
  shows "facade_untouched (client_step w op)"
proof (cases op)
  case (Append b c)
  show ?thesis
  proof (cases "b \<in> set (objs w)")
    case False
    with Append assms show ?thesis by simp
  next
    case True
    with assms have cb: "chain_object (heap w) b"
      by (simp add: facade_untouched_def list_all_iff)
    obtain r st' where inv: "invoke (heap w) b c = (r, st')" by (cases "invoke (heap w) b c")
    show ?thesis
    proof (cases r)
      case (Inl e)
      with invoke_fails [of "heap w" b c e st'] inv have "st' = heap w" by simp
      with Append True inv Inl assms show ?thesis
        by (simp add: facade_untouched_def)
    next
      case (Inr b')
      show ?thesis
      proof (cases "created b")
        case cr: True
        from invoke_created [OF cr inv [unfolded Inr]]
        have b': "b' = b" and st': "st' = push (heap w) (elems b) (fragment_of c)" by simp_all
        from cb cr have "elems b \<noteq> elems cssSelectorBuilder" by (simp add: chain_object_def)
        with assms cb Append True inv Inr show ?thesis
          by (auto simp: facade_untouched_def b' st' push_def list_all_iff chain_object_def)
      next
        case ncr: False
        from inv Inr invoke_facade [OF ncr, of "heap w" c]
        have b': "b' = \<lparr>elems = fresh (heap w), created = True\<rparr>"
          and st': "st' = (heap w)\<lparr>arrays := (arrays (heap w))(fresh (heap w) := [fragment_of c]),
                       fresh := Suc (fresh (heap w))\<rparr>" by simp_all
        from assms Append True inv Inr show ?thesis
          by (auto simp: facade_untouched_def b' st' list_all_iff chain_object_def)
      qed
    qed
  qed
next
  case (Render b)
  with assms show ?thesis
    by (auto simp: facade_untouched_def list_all_iff stringify_keeps_empty chain_object_def)
next
  case (Combine args)
  with assms show ?thesis
    by (auto simp: facade_untouched_def list_all_iff combine_def split_beta
        combine_map_keeps_empty chain_object_def)
qed

lemma facade_untouched_foldl:
  "facade_untouched w \<Longrightarrow> facade_untouched (foldl client_step w ops)"
  by (induction ops arbitrary: w) (simp_all add: facade_untouched_step)

lemma facade_untouched_run: "facade_untouched (run_client ops)"
  unfolding run_client_def by (rule facade_untouched_foldl [OF facade_untouched_init])

lemma built_by_methods_init: "built_by_methods init_store"
  by (simp add: built_by_methods_def)

lemma built_by_methods_invoke:
  assumes "built_by_methods st"
  shows "built_by_methods (snd (invoke st b c))"
proof (cases "invoke st b c")
  case (Pair r st')
  show ?thesis
  proof (cases r)
    case (Inl e)
    with Pair invoke_fails [of st b c e st'] assms show ?thesis by simp
  next
    case (Inr b')
    show ?thesis
    proof (cases "created b")
      case True
      from invoke_created [OF True Pair [unfolded Inr]] assms Pair show ?thesis
        by (auto simp: built_by_methods_def push_def)
    next
      case False
      from invoke_facade [OF False, of st c] assms show ?thesis
        by (auto simp: built_by_methods_def)
    qed
  qed
qed

lemma built_by_methods_stringify:
  "built_by_methods st \<Longrightarrow> built_by_methods (snd (stringify st b))"
  by (auto simp: built_by_methods_def stringify_def)

lemma built_by_methods_combine_map:
  "built_by_methods st \<Longrightarrow> built_by_methods (snd (combine_map st args))"
proof (induction args arbitrary: st)
  case Nil
  then show ?case by simp
next
  case (Cons i items)
  then show ?case by (cases i) (simp_all add: split_beta built_by_methods_stringify)
qed

lemma built_by_methods_step:
  assumes "built_by_methods (heap w)"
  shows "built_by_methods (heap (client_step w op))"
proof (cases op)
  case (Append b c)
  with assms built_by_methods_invoke [OF assms, of b c] show ?thesis
    by (auto split: prod.splits sum.splits)
next
  case (Render b)
  with assms show ?thesis by (simp add: built_by_methods_stringify)
next
  case (Combine args)
  with assms show ?thesis by (simp add: combine_def split_beta built_by_methods_combine_map)
qed

lemma built_by_methods_foldl:
  "built_by_methods (heap w) \<Longrightarrow> built_by_methods (heap (foldl client_step w ops))"
  by (induction ops arbitrary: w) (simp_all add: built_by_methods_step)

text \<open>
  In every world a client program reaches, the hypotheses that the theorems below put on a
  chain hold: its fragments were built by the six methods, and an object whose array holds
  a fragment has \<^verbatim>\<open>created\<close>.
\<close>

lemma built_by_methods_run: "built_by_methods (heap (run_client ops))"
  unfolding run_client_def
  by (rule built_by_methods_foldl) (simp add: init_world_def built_by_methods_init)

lemma fragments_imply_created:
  assumes "b \<in> set (objs (run_client ops))"
    and "arrays (heap (run_client ops)) (elems b) \<noteq> []"
  shows "created b"
proof (rule ccontr)
  assume "\<not> created b"
  moreover from facade_untouched_run [of ops] assms(1)
  have "chain_object (heap (run_client ops)) b"
    and "arrays (heap (run_client ops)) (elems cssSelectorBuilder) = []"
    by (simp_all add: facade_untouched_def list_all_iff)
  ultimately show False using assms(2) by (simp add: chain_object_def)
qed

subsection \<open>The JSON text of a value reads back as the value\<close>
















lemma skip_ws_id: "s = [] \<or> \<not> is_ws (hd s) \<Longrightarrow> skip_ws s = s"
  by (cases s) (auto simp: skip_ws_def)











section \<open>Properties of the module\<close>

subsection \<open>Rectangle\<close>

text \<open>
  C9: for all numbers \<open>w\<close> and \<open>h\<close> the constructor returns an object whose \<open>width\<close> is
  \<open>w\<close>, whose \<open>height\<close> is \<open>h\<close> and whose \<open>getArea()\<close> returns \<open>w * h\<close>. The function is
  total: it validates nothing and raises nothing.
\<close>

theorem Rectangle_fields_and_area:
  "width (Rectangle w h) = w \<and> height (Rectangle w h) = h \<and> getArea (Rectangle w h) () = w * h"
  by (simp add: Rectangle_def)

theorem Rectangle_fields_and_area_witness:
  "width (Rectangle (10::int) 20) = 10 \<and> height (Rectangle (10::int) 20) = 20 \<and>
   getArea (Rectangle (10::int) 20) () = 200"
  using Rectangle_fields_and_area [of "10::int" 20] by simp

subsection \<open>Rendering a chain\<close>

text \<open>
  C1, as amended: a chain of fragment-adding calls started at the facade goes through
  exactly when it keeps the two rules (ranks in ascending order, no one-of-a-kind kind
  twice). If it does, \<open>stringify()\<close> returns the concatenation, in append order and with
  no separator, of each fragment's prefix glyph followed by its value (the attribute value
  in brackets); if it does not, a call throws the duplicate or the out-of-order error and
  \<open>stringify()\<close> is not reached. The same holds for a chain continued from a chain object,
  with the fragments it already holds in front. Whenever a chain goes through, the text is
  that concatenation. In particular \<open>element('a').id('x').class('y')\<close> renders \<open>a#x.y\<close>
  and \<open>element('a').attr('href$=".png"').pseudoClass('focus')\<close> renders
  \<open>a[href$=".png"]:focus\<close>.
\<close>

theorem stringify_renders_chain:
  "(\<forall>st b cs. \<not> created b \<longrightarrow> cs \<noteq> [] \<longrightarrow>
      (legal cs \<longrightarrow> chain_stringify st b cs = Inr (concat (map spec_render cs))) \<and>
      (\<not> legal cs \<longrightarrow>
         (\<exists>e. chain_stringify st b cs = Inl e \<and>
              (e = DuplicateSelectorPartError \<or> e = OutOfOrderError)))) \<and>
   (\<forall>st b cs0 cs. created b \<longrightarrow> arrays st (elems b) = map fragment_of cs0 \<longrightarrow> legal cs0 \<longrightarrow>
      (legal (cs0 @ cs) \<longrightarrow>
         chain_stringify st b cs = Inr (concat (map spec_render (cs0 @ cs)))) \<and>
      (\<not> legal (cs0 @ cs) \<longrightarrow>
         (\<exists>e. chain_stringify st b cs = Inl e \<and>
              (e = DuplicateSelectorPartError \<or> e = OutOfOrderError)))) \<and>
   (\<forall>st b cs s. chain_stringify st b cs = Inr s \<longrightarrow>
      (created b \<longrightarrow> s = fst (stringify st b) @ concat (map spec_render cs)) \<and>
      (\<not> created b \<longrightarrow> cs \<noteq> [] \<longrightarrow> s = concat (map spec_render cs))) \<and>
   chain_stringify init_store cssSelectorBuilder
      [(ElementKind, ''a''), (IdKind, ''x''), (ClassKind, ''y'')] = Inr ''a#x.y'' \<and>
   chain_stringify init_store cssSelectorBuilder
      [(ElementKind, ''a''), (AttributeKind, ''href$=\".png\"''), (PseudoClassKind, ''focus'')]
      = Inr ''a[href$=\".png\"]:focus''"
proof (intro conjI allI impI)
  fix st :: store and b :: builder and cs :: "call list"
  assume ncr: "\<not> created b" and ne: "cs \<noteq> []"
  then obtain c cs' where cs: "cs = c # cs'" by (cases cs) auto
  from facade_first_call [OF ncr, of st c]
  obtain b1 st1 where first: "invoke st b c = (Inr b1, st1)" and cr1: "created b1"
    and es1: "arrays st1 (elems b1) = map fragment_of [c]" by blast
  have rest: "chain_stringify st b cs = chain_stringify st1 b1 cs'"
    by (simp add: cs chain_stringify_step [OF first])
  {
    assume "legal cs"
    then have "legal ([c] @ cs')" by (simp add: cs)
    from legal_chain_renders [OF cr1 es1 this]
    show "chain_stringify st b cs = Inr (concat (map spec_render cs))"
      unfolding rest by (simp add: cs)
  }
  {
    assume "\<not> legal cs"
    then have "\<not> legal ([c] @ cs')" by (simp add: cs)
    from illegal_chain_throws [OF cr1 es1 legal_single this]
    show "\<exists>e. chain_stringify st b cs = Inl e \<and>
              (e = DuplicateSelectorPartError \<or> e = OutOfOrderError)"
      by (simp add: rest)
  }
next
  fix st :: store and b :: builder and cs0 cs :: "call list"
  assume cr: "created b" and es: "arrays st (elems b) = map fragment_of cs0" and l0: "legal cs0"
  {
    assume "legal (cs0 @ cs)"
    from legal_chain_renders [OF cr es this]
    show "chain_stringify st b cs = Inr (concat (map spec_render (cs0 @ cs)))" .
  }
  {
    assume "\<not> legal (cs0 @ cs)"
    from illegal_chain_throws [OF cr es l0 this]
    show "\<exists>e. chain_stringify st b cs = Inl e \<and>
              (e = DuplicateSelectorPartError \<or> e = OutOfOrderError)" .
  }
next
  fix st :: store and b :: builder and cs s
  assume ok: "chain_stringify st b cs = Inr s"
  then obtain b' st' where ch: "chain st b cs = (Inr b', st')" and s: "s = fst (stringify st' b')"
    by (auto simp: chain_stringify_Inr)
  {
    assume cr: "created b"
    from chain_created [OF cr ch]
    show "s = fst (stringify st b) @ concat (map spec_render cs)"
      by (simp add: s stringify_text render_fragments)
  }
  {
    assume "\<not> created b" "cs \<noteq> []"
    then obtain c cs' where "cs = c # cs'" by (cases cs) auto
    with chain_facade [OF \<open>\<not> created b\<close>] ch
    have "arrays st' (elems b') = map fragment_of cs" by simp
    then show "s = concat (map spec_render cs)"
      by (simp add: s stringify_text render_fragments)
  }
next
  show "chain_stringify init_store cssSelectorBuilder
      [(ElementKind, ''a''), (IdKind, ''x''), (ClassKind, ''y'')] = Inr ''a#x.y''"
    by (simp add: eval_defs)
next
  show "chain_stringify init_store cssSelectorBuilder
      [(ElementKind, ''a''), (AttributeKind, ''href$=\".png\"''), (PseudoClassKind, ''focus'')]
      = Inr ''a[href$=\".png\"]:focus''"
    by (simp add: eval_defs)
qed

theorem stringify_renders_chain_witness:
  "chain_stringify init_store cssSelectorBuilder
      [(ElementKind, ''e''), (IdKind, ''i''), (ClassKind, ''c''), (AttributeKind, ''a''),
       (PseudoClassKind, ''p''), (PseudoElementKind, ''q'')]
     = Inr ''e#i.c[a]:p::q'' \<and>
   chain_stringify init_store cssSelectorBuilder
      [(IdKind, ''main''), (ClassKind, ''container''), (ClassKind, ''editable'')]
     = Inr ''#main.container.editable'' \<and>
   (\<exists>e. chain_stringify init_store cssSelectorBuilder
           [(PseudoElementKind, ''after''), (PseudoClassKind, ''valid'')] = Inl e)"
proof -
  let ?full = "[(ElementKind, ''e''), (IdKind, ''i''), (ClassKind, ''c''), (AttributeKind, ''a''),
       (PseudoClassKind, ''p''), (PseudoElementKind, ''q'')]"
  let ?doc = "[(IdKind, ''main''), (ClassKind, ''container''), (ClassKind, ''editable'')]"
  let ?bad = "[(PseudoElementKind, ''after''), (PseudoClassKind, ''valid'')]"
  have ncr: "\<not> created cssSelectorBuilder" by simp
  have l1: "legal ?full" and l2: "legal ?doc" and l3: "\<not> legal ?bad"
    by (simp_all add: legal_def one_of_a_kind_def)
  have n1: "?full \<noteq> []" and n2: "?doc \<noteq> []" and n3: "?bad \<noteq> []" by simp_all
  note facade = stringify_renders_chain [THEN conjunct1, rule_format, OF ncr]
  from facade [OF n1, THEN conjunct1, rule_format, OF l1]
  have 1: "chain_stringify init_store cssSelectorBuilder ?full = Inr ''e#i.c[a]:p::q''"
    by (simp add: spec_render_def)
  from facade [OF n2, THEN conjunct1, rule_format, OF l2]
  have 2: "chain_stringify init_store cssSelectorBuilder ?doc = Inr ''#main.container.editable''"
    by (simp add: spec_render_def)
  from facade [OF n3, THEN conjunct2, rule_format, OF l3]
  have 3: "\<exists>e. chain_stringify init_store cssSelectorBuilder ?bad = Inl e" by blast
  from 1 2 3 show ?thesis by blast
qed

text \<open>
  C1 as stated fails for a chain that breaks a rule: \<open>class('c').id('x')\<close> is a chain of
  fragment-adding calls, and it throws the out-of-order error instead of rendering
  \<open>.c#x\<close>.
\<close>

theorem stringify_renders_chain_counterexample:
  "chain_stringify init_store cssSelectorBuilder [(ClassKind, ''c''), (IdKind, ''x'')]
     = Inl OutOfOrderError \<and>
   chain_stringify init_store cssSelectorBuilder [(ClassKind, ''c''), (IdKind, ''x'')]
     \<noteq> Inr (concat (map spec_render [(ClassKind, ''c''), (IdKind, ''x'')]))"
  by (simp add: eval_defs)

text \<open>
  C5: \<open>stringify()\<close> empties the fragment sequence of the chain; a second \<open>stringify()\<close>
  on the same chain object, with nothing appended in between, returns the empty string.
\<close>

theorem stringify_twice_empty:
  "arrays (snd (stringify st this)) (elems this) = [] \<and>
   fst (stringify (snd (stringify st this)) this) = ''''"
  by (simp add: stringify_def)

theorem stringify_twice_empty_witness:
  "(case chain init_store cssSelectorBuilder [(IdKind, ''main''), (ClassKind, ''container'')] of
      (Inr b, st) \<Rightarrow>
         fst (stringify st b) = ''#main.container'' \<and>
         fst (stringify (snd (stringify st b)) b) = ''''
    | (Inl e, st) \<Rightarrow> False)"
proof -
  let ?b = "\<lparr>elems = Suc 0, created = True\<rparr>"
  let ?st = "snd (chain init_store cssSelectorBuilder [(IdKind, ''main''), (ClassKind, ''container'')])"
  have c: "fst (chain init_store cssSelectorBuilder [(IdKind, ''main''), (ClassKind, ''container'')]) = Inr ?b"
    by (simp add: eval_defs)
  have "fst (stringify ?st ?b) = ''#main.container''"
    by (simp add: eval_defs)
  with stringify_twice_empty [of ?st ?b] show ?thesis
    using c by (simp add: split_beta)
qed

subsection \<open>Rejected appends\<close>

text \<open>
  C3: appending a one-of-a-kind fragment (element, id or pseudo-element) to a chain object
  that already holds a fragment of the same kind fails with the error whose message says
  that element, id and pseudo-element should not occur more than once, and leaves the
  store as it was; in particular \<open>id('a').id('b')\<close> raises it. (A chain object is one with
  \<^verbatim>\<open>created\<close>: every object a fragment-adding call returns.)
\<close>

theorem duplicate_one_of_a_kind_rejected:
  "(\<forall>st b k v v'. created b \<longrightarrow> one_of_a_kind k \<longrightarrow>
       fragment_of (k, v') \<in> set (arrays st (elems b)) \<longrightarrow>
       invoke st b (k, v) =
         (Inl (Error ''Element, id and pseudo-element should not occur more then one time inside the selector''), st)) \<and>
   chain_stringify init_store cssSelectorBuilder [(IdKind, ''a''), (IdKind, ''b'')] =
     Inl (Error ''Element, id and pseudo-element should not occur more then one time inside the selector'')"
proof (intro conjI allI impI)
  fix st :: store and b :: builder and k v v'
  assume cr: "created b" and one: "one_of_a_kind k"
    and mem: "fragment_of (k, v') \<in> set (arrays st (elems b))"
  have "\<exists>el\<in>set (arrays st (elems b)). unit el = unit (fragment_of (k, v))"
    using mem by (auto simp: unit_fragment_of intro!: bexI [of _ "fragment_of (k, v')"])
  then have "checkOneOfType (arrays st (elems b)) (fragment_of (k, v)) = Inl DuplicateSelectorPartError"
    using one by (simp add: checkOneOfType_fragment_of unit_fragment_of)
  from CssSelectorBuilder_duplicate [OF cr this]
  show "invoke st b (k, v) =
      (Inl (Error ''Element, id and pseudo-element should not occur more then one time inside the selector''), st)"
    by (simp add: invoke_fragment_of DuplicateSelectorPartError_def)
next
  show "chain_stringify init_store cssSelectorBuilder [(IdKind, ''a''), (IdKind, ''b'')] =
     Inl (Error ''Element, id and pseudo-element should not occur more then one time inside the selector'')"
    by (simp add: eval_defs)
qed

theorem duplicate_one_of_a_kind_rejected_witness:
  "(case chain init_store cssSelectorBuilder [(ElementKind, ''table'')] of
      (Inr b, st) \<Rightarrow>
         fst (invoke st b (ElementKind, ''div'')) = Inl DuplicateSelectorPartError \<and>
         fst (stringify (snd (invoke st b (ElementKind, ''div''))) b) = ''table''
    | (Inl e, st) \<Rightarrow> False)"
proof -
  let ?b = "\<lparr>elems = Suc 0, created = True\<rparr>"
  let ?st = "snd (chain init_store cssSelectorBuilder [(ElementKind, ''table'')])"
  have c: "fst (chain init_store cssSelectorBuilder [(ElementKind, ''table'')]) = Inr ?b"
    by (simp add: eval_defs)
  have cr: "created ?b" by simp
  have one: "one_of_a_kind ElementKind" by (simp add: one_of_a_kind_def)
  have mem: "fragment_of (ElementKind, ''table'') \<in> set (arrays ?st (elems ?b))"
    by (simp add: eval_defs)
  from duplicate_one_of_a_kind_rejected [THEN conjunct1, rule_format, OF cr one mem, of "''div''"]
  have "invoke ?st ?b (ElementKind, ''div'') = (Inl DuplicateSelectorPartError, ?st)"
    by (simp add: DuplicateSelectorPartError_def)
  moreover have "fst (stringify ?st ?b) = ''table''" by (simp add: eval_defs)
  ultimately show ?thesis using c by (simp add: split_beta)
qed

text \<open>
  C2, as amended: appending to a chain object, whose fragments were built by the six
  methods, a fragment whose rank is strictly lower than the rank of a fragment already in
  the chain always fails and leaves the store as it was. The uniqueness check runs before
  the order check: the error is the out-of-order error when the new fragment is a class,
  an attribute or a pseudo-class, or when no fragment in the chain has its prefix glyph;
  it is the duplicate error when the new fragment is one-of-a-kind and the chain already
  holds a fragment of its kind.
\<close>

theorem lower_rank_append_rejected:
  assumes cr: "created b"
    and wf: "set (arrays st (elems b)) \<subseteq> range fragment_of"
    and low: "\<exists>f\<in>set (arrays st (elems b)). orderRank k < specific f"
  shows "(\<exists>e. invoke st b (k, v) = (Inl e, st) \<and>
            (e = DuplicateSelectorPartError \<or> e = OutOfOrderError)) \<and>
         ((\<not> one_of_a_kind k \<or> (\<forall>f\<in>set (arrays st (elems b)). unit f \<noteq> prefixGlyph k)) \<longrightarrow>
            invoke st b (k, v) =
              (Inl (Error ''Selector parts should be arranged in the following order: element, id, class, attribute, pseudo-class, pseudo-element''), st)) \<and>
         ((one_of_a_kind k \<and> (\<exists>v'. fragment_of (k, v') \<in> set (arrays st (elems b)))) \<longrightarrow>
            invoke st b (k, v) = (Inl DuplicateSelectorPartError, st))"
proof -
  let ?es = "arrays st (elems b)" and ?cur = "fragment_of (k, v)"
  have digits: "\<forall>f\<in>set ?es. specific f < 10"
  proof
    fix f assume "f \<in> set ?es"
    with wf obtain c where "f = fragment_of c" by auto
    then show "specific f < 10"
      using orderRank_le [of "fst c"] by (simp add: specific_fragment_of)
  qed
  have cur: "specific ?cur < 10"
    using orderRank_le [of k] by (simp add: specific_fragment_of)
  have "\<not> sorted (map specific (?es @ [?cur]))"
    using low by (intro not_sorted_snoc) (simp add: specific_fragment_of)
  from checkOrder_unsorted [OF this digits cur]
  have order: "checkOrder ?es ?cur = Inl OutOfOrderError" .
  have unique_ok: "invoke st b (k, v) = (Inl OutOfOrderError, st)"
    if "checkOneOfType ?es ?cur = Inr ()"
    using CssSelectorBuilder_order [OF cr that order] by (simp add: invoke_fragment_of)
  have unique_fails: "invoke st b (k, v) = (Inl DuplicateSelectorPartError, st)"
    if "checkOneOfType ?es ?cur = Inl DuplicateSelectorPartError"
    using CssSelectorBuilder_duplicate [OF cr that] by (simp add: invoke_fragment_of)
  have 1: "\<exists>e. invoke st b (k, v) = (Inl e, st) \<and>
            (e = DuplicateSelectorPartError \<or> e = OutOfOrderError)"
    using checkOneOfType_cases [of ?es ?cur] unique_ok unique_fails by auto
  have 2: "invoke st b (k, v) = (Inl OutOfOrderError, st)"
    if "\<not> one_of_a_kind k \<or> (\<forall>f\<in>set ?es. unit f \<noteq> prefixGlyph k)"
  proof -
    have "checkOneOfType ?es ?cur = Inr ()"
      using that by (auto simp: checkOneOfType_fragment_of)
    then show ?thesis by (rule unique_ok)
  qed
  have 3: "invoke st b (k, v) = (Inl DuplicateSelectorPartError, st)"
    if "one_of_a_kind k \<and> (\<exists>v'. fragment_of (k, v') \<in> set ?es)"
  proof -
    from that obtain v' where "fragment_of (k, v') \<in> set ?es" by auto
    then have "\<exists>el\<in>set ?es. unit el = unit ?cur"
      by (auto simp: unit_fragment_of intro!: bexI [of _ "fragment_of (k, v')"])
    with that have "checkOneOfType ?es ?cur = Inl DuplicateSelectorPartError"
      by (simp add: checkOneOfType_fragment_of unit_fragment_of)
    then show ?thesis by (rule unique_fails)
  qed
  from 1 2 3 show ?thesis unfolding OutOfOrderError_def by blast
qed

theorem lower_rank_append_rejected_witness:
  "(case chain init_store cssSelectorBuilder [(ClassKind, ''c'')] of
      (Inr b, st) \<Rightarrow>
         fst (invoke st b (IdKind, ''x'')) = Inl OutOfOrderError \<and>
         fst (stringify (snd (invoke st b (IdKind, ''x''))) b) = ''.c''
    | (Inl e, st) \<Rightarrow> False)"
proof -
  let ?b = "\<lparr>elems = Suc 0, created = True\<rparr>"
  let ?st = "snd (chain init_store cssSelectorBuilder [(ClassKind, ''c'')])"
  have c: "fst (chain init_store cssSelectorBuilder [(ClassKind, ''c'')]) = Inr ?b"
    by (simp add: eval_defs)
  have es: "arrays ?st (elems ?b) = [fragment_of (ClassKind, ''c'')]"
    by (simp add: eval_defs)
  have cr: "created ?b" by simp
  have wf: "set (arrays ?st (elems ?b)) \<subseteq> range fragment_of"
    unfolding es by simp
  have low: "\<exists>f\<in>set (arrays ?st (elems ?b)). orderRank IdKind < specific f"
    unfolding es by (simp add: specific_fragment_of)
  have glyph: "\<not> one_of_a_kind IdKind \<or> (\<forall>f\<in>set (arrays ?st (elems ?b)). unit f \<noteq> prefixGlyph IdKind)"
    unfolding es by (simp add: unit_fragment_of)
  from lower_rank_append_rejected [OF cr wf low, of "''x''", THEN conjunct2, THEN conjunct1,
      rule_format, OF glyph]
  have "invoke ?st ?b (IdKind, ''x'') = (Inl OutOfOrderError, ?st)"
    by (simp add: OutOfOrderError_def)
  moreover have "fst (stringify ?st ?b) = ''.c''" by (simp add: eval_defs)
  ultimately show ?thesis using c by (simp add: split_beta)
qed

text \<open>
  C2 as stated fails: after \<open>id('a').class('c')\<close> the chain holds a class fragment
  (rank 2), the new id fragment has rank 1, and \<open>.id('b')\<close> raises the duplicate error,
  not the out-of-order error.
\<close>

theorem lower_rank_append_rejected_counterexample:
  "(case chain init_store cssSelectorBuilder [(IdKind, ''a''), (ClassKind, ''c'')] of
      (Inr b, st) \<Rightarrow>
         fragment_of (ClassKind, ''c'') \<in> set (arrays st (elems b)) \<and>
         orderRank IdKind < specific (fragment_of (ClassKind, ''c'')) \<and>
         fst (invoke st b (IdKind, ''b'')) = Inl DuplicateSelectorPartError \<and>
         fst (invoke st b (IdKind, ''b'')) \<noteq> Inl OutOfOrderError
    | (Inl e, st) \<Rightarrow> False)"
  by (simp add: eval_defs)

text \<open>
  The uniqueness check compares prefix glyphs only, and the element and the attribute
  fragment both have the empty one: an element appended to a chain that holds an attribute
  and no element is reported as a duplicate.
\<close>

lemma element_after_attribute_reported_as_duplicate:
  "chain_stringify init_store cssSelectorBuilder [(AttributeKind, ''href''), (ElementKind, ''a'')]
     = Inl DuplicateSelectorPartError"
  by (simp add: eval_defs)

text \<open>
  C7: when an append fails, nothing is appended: the store is the one before the call, so
  a following \<open>stringify()\<close> on the chain returns what it would have returned before, and
  every further call on the chain has the outcome it would have had before; the only
  failures are the duplicate and the out-of-order error.
\<close>

theorem failed_append_changes_nothing:
  assumes "invoke st b c = (Inl e, st')"
  shows "st' = st \<and> (e = DuplicateSelectorPartError \<or> e = OutOfOrderError) \<and>
         stringify st' b = stringify st b \<and> (\<forall>c'. invoke st' b c' = invoke st b c')"
  using invoke_fails [OF assms] by simp

theorem failed_append_changes_nothing_witness:
  "(case chain init_store cssSelectorBuilder [(IdKind, ''a'')] of
      (Inr b, st) \<Rightarrow>
        (case invoke st b (IdKind, ''b'') of
           (Inl e, st') \<Rightarrow>
              e = DuplicateSelectorPartError \<and>
              fst (stringify st' b) = ''#a'' \<and>
              chain_stringify st' b [(ClassKind, ''c'')] = Inr ''#a.c''
         | (Inr b', st') \<Rightarrow> False)
    | (Inl e, st) \<Rightarrow> False)"
proof -
  let ?b = "\<lparr>elems = Suc 0, created = True\<rparr>"
  let ?st = "snd (chain init_store cssSelectorBuilder [(IdKind, ''a'')])"
  have c: "fst (chain init_store cssSelectorBuilder [(IdKind, ''a'')]) = Inr ?b"
    by (simp add: eval_defs)
  have f: "invoke ?st ?b (IdKind, ''b'') = (Inl DuplicateSelectorPartError, ?st)"
    by (simp add: eval_defs)
  have "fst (stringify ?st ?b) = ''#a''" and "chain_stringify ?st ?b [(ClassKind, ''c'')] = Inr ''#a.c''"
    by (simp_all add: eval_defs)
  with failed_append_changes_nothing [OF f] show ?thesis
    using c f by (simp add: split_beta)
qed

subsection \<open>Sharing between chain objects\<close>

text \<open>
  C10: extending a chain object pushes onto its array in place and the object returned
  refers to the same array: both render the old fragments followed by the new one, and
  rendering one empties the other. After \<open>a = facade.element('e')\<close> and \<open>b = a.id('x')\<close> the
  two share the array, \<open>a.stringify()\<close> returns \<open>e#x\<close> (it returned \<open>e\<close> before the
  extension), and \<open>b.stringify()\<close> then returns the empty string.
\<close>

theorem extension_shares_the_array:
  "(\<forall>st b c b' st'. created b \<longrightarrow> invoke st b c = (Inr b', st') \<longrightarrow>
      elems b' = elems b \<and>
      arrays st' (elems b) = arrays st (elems b) @ [fragment_of c] \<and>
      fst (stringify st' b) = fst (stringify st b) @ spec_render c \<and>
      fst (stringify st' b') = fst (stringify st' b) \<and>
      fst (stringify (snd (stringify st' b)) b') = '''') \<and>
   (case element init_store cssSelectorBuilder ''e'' of
      (Inr a, st1) \<Rightarrow>
        (case id' st1 a ''x'' of
           (Inr b, st2) \<Rightarrow>
              elems a = elems b \<and>
              fst (stringify st1 a) = ''e'' \<and>
              fst (stringify st2 a) = ''e#x'' \<and>
              fst (stringify (snd (stringify st2 a)) b) = ''''
         | (Inl e, st2) \<Rightarrow> False)
    | (Inl e, st1) \<Rightarrow> False)"
proof (intro conjI allI impI)
  fix st :: store and b :: builder and c b' st'
  assume cr: "created b" and ok: "invoke st b c = (Inr b', st')"
  from invoke_created [OF cr ok]
  have b': "b' = b" and st': "st' = push st (elems b) (fragment_of c)" by simp_all
  show "elems b' = elems b" by (simp add: b')
  show "arrays st' (elems b) = arrays st (elems b) @ [fragment_of c]"
    by (simp add: st' push_def)
  show "fst (stringify st' b) = fst (stringify st b) @ spec_render c"
    by (simp add: st' push_def stringify_text render_fragment_of)
  show "fst (stringify st' b') = fst (stringify st' b)" by (simp add: b')
  show "fst (stringify (snd (stringify st' b)) b') = ''''"
    by (simp add: b' stringify_def)
next
  show "case element init_store cssSelectorBuilder ''e'' of
      (Inr a, st1) \<Rightarrow>
        (case id' st1 a ''x'' of
           (Inr b, st2) \<Rightarrow>
              elems a = elems b \<and>
              fst (stringify st1 a) = ''e'' \<and>
              fst (stringify st2 a) = ''e#x'' \<and>
              fst (stringify (snd (stringify st2 a)) b) = ''''
         | (Inl e, st2) \<Rightarrow> False)
    | (Inl e, st1) \<Rightarrow> False"
    by (simp add: eval_defs)
qed

theorem extension_shares_the_array_witness:
  "(case chain init_store cssSelectorBuilder [(ElementKind, ''div'')] of
      (Inr a, st1) \<Rightarrow>
        (case invoke st1 a (ClassKind, ''container'') of
           (Inr b, st2) \<Rightarrow>
              elems b = elems a \<and>
              fst (stringify st2 a) = ''div.container'' \<and>
              fst (stringify st2 b) = ''div.container'' \<and>
              fst (stringify (snd (stringify st2 a)) b) = ''''
         | (Inl e, st2) \<Rightarrow> False)
    | (Inl e, st1) \<Rightarrow> False)"
proof -
  let ?a = "\<lparr>elems = Suc 0, created = True\<rparr>"
  let ?st1 = "snd (chain init_store cssSelectorBuilder [(ElementKind, ''div'')])"
  let ?st2 = "snd (invoke ?st1 ?a (ClassKind, ''container''))"
  have c: "fst (chain init_store cssSelectorBuilder [(ElementKind, ''div'')]) = Inr ?a"
    by (simp add: eval_defs)
  have cr: "created ?a" by simp
  have i: "invoke ?st1 ?a (ClassKind, ''container'') = (Inr ?a, ?st2)"
    by (simp add: eval_defs)
  from extension_shares_the_array [THEN conjunct1, rule_format, OF cr i]
  show ?thesis by (simp add: eval_defs)
qed

text \<open>
  C6: in every world a client program reaches, the facade's own array is empty: no call
  changes it. A fragment-adding call on the facade allocates a new array, so two chains
  started from the facade have arrays different from each other and from that of every
  object handed out before, each renders only its own fragment, in either order, and
  extending the first leaves the second as it was. After \<open>facade.id('a')\<close> and
  \<open>facade.class('b')\<close> the first renders \<open>#a\<close> and the second \<open>.b\<close>.
\<close>

theorem facade_chains_independent:
  "(\<forall>ops. arrays (heap (run_client ops)) (elems cssSelectorBuilder) = []) \<and>
   (\<forall>ops c1 c2.
      case invoke (heap (run_client ops)) cssSelectorBuilder c1 of
        (Inr h1, st1) \<Rightarrow>
          (case invoke st1 cssSelectorBuilder c2 of
             (Inr h2, st2) \<Rightarrow>
                elems h1 \<noteq> elems h2 \<and>
                list_all (\<lambda>b. elems b \<noteq> elems h1 \<and> elems b \<noteq> elems h2) (objs (run_client ops)) \<and>
                arrays st2 (elems cssSelectorBuilder) = [] \<and>
                fst (stringify st2 h1) = spec_render c1 \<and>
                fst (stringify st2 h2) = spec_render c2 \<and>
                fst (stringify (snd (stringify st2 h1)) h2) = spec_render c2 \<and>
                fst (stringify (snd (stringify st2 h2)) h1) = spec_render c1 \<and>
                (\<forall>cs. fst (stringify (snd (chain st2 h1 cs)) h2) = spec_render c2)
           | (Inl e, st2) \<Rightarrow> False)
      | (Inl e, st1) \<Rightarrow> False) \<and>
   (case id' init_store cssSelectorBuilder ''a'' of
      (Inr h1, st1) \<Rightarrow>
        (case class' st1 cssSelectorBuilder ''b'' of
           (Inr h2, st2) \<Rightarrow>
              fst (stringify st2 h1) = ''#a'' \<and>
              fst (stringify (snd (stringify st2 h1)) h2) = ''.b''
         | (Inl e, st2) \<Rightarrow> False)
    | (Inl e, st1) \<Rightarrow> False)"
proof (intro conjI allI)
  fix ops
  from facade_untouched_run [of ops]
  show "arrays (heap (run_client ops)) (elems cssSelectorBuilder) = []"
    by (simp add: facade_untouched_def)
next
  fix ops c1 c2
  let ?w = "run_client ops"
  let ?st = "heap ?w"
  let ?h1 = "\<lparr>elems = fresh ?st, created = True\<rparr>"
  let ?st1 = "?st\<lparr>arrays := (arrays ?st)(fresh ?st := [fragment_of c1]), fresh := Suc (fresh ?st)\<rparr>"
  let ?h2 = "\<lparr>elems = Suc (fresh ?st), created = True\<rparr>"
  let ?st2 = "?st1\<lparr>arrays := (arrays ?st1)(Suc (fresh ?st) := [fragment_of c2]),
                  fresh := Suc (Suc (fresh ?st))\<rparr>"
  have i1: "invoke ?st cssSelectorBuilder c1 = (Inr ?h1, ?st1)"
    using invoke_facade [of cssSelectorBuilder ?st c1] by simp
  have i2: "invoke ?st1 cssSelectorBuilder c2 = (Inr ?h2, ?st2)"
    using invoke_facade [of cssSelectorBuilder ?st1 c2] by simp
  from facade_untouched_run [of ops]
  have empty: "arrays ?st 0 = []" and pos: "0 < fresh ?st"
    and known: "\<forall>b\<in>set (objs ?w). chain_object ?st b"
    by (simp_all add: facade_untouched_def list_all_iff)
  have old: "list_all (\<lambda>b. elems b \<noteq> elems ?h1 \<and> elems b \<noteq> elems ?h2) (objs ?w)"
    unfolding list_all_iff
  proof
    fix b assume "b \<in> set (objs ?w)"
    with known have "chain_object ?st b" by blast
    then have "elems b < fresh ?st" using pos
      by (auto simp: chain_object_def split: if_splits)
    then show "elems b \<noteq> elems ?h1 \<and> elems b \<noteq> elems ?h2" by simp
  qed
  have later: "fst (stringify (snd (chain ?st2 ?h1 cs)) ?h2) = spec_render c2" for cs
  proof -
    have "arrays (snd (chain ?st2 ?h1 cs)) (elems ?h2) = arrays ?st2 (elems ?h2)"
      by (rule chain_frame) simp_all
    then show ?thesis by (simp add: stringify_text render_fragment_of)
  qed
  show "case invoke ?st cssSelectorBuilder c1 of
        (Inr h1, st1) \<Rightarrow>
          (case invoke st1 cssSelectorBuilder c2 of
             (Inr h2, st2) \<Rightarrow>
                elems h1 \<noteq> elems h2 \<and>
                list_all (\<lambda>b. elems b \<noteq> elems h1 \<and> elems b \<noteq> elems h2) (objs ?w) \<and>
                arrays st2 (elems cssSelectorBuilder) = [] \<and>
                fst (stringify st2 h1) = spec_render c1 \<and>
                fst (stringify st2 h2) = spec_render c2 \<and>
                fst (stringify (snd (stringify st2 h1)) h2) = spec_render c2 \<and>
                fst (stringify (snd (stringify st2 h2)) h1) = spec_render c1 \<and>
                (\<forall>cs. fst (stringify (snd (chain st2 h1 cs)) h2) = spec_render c2)
           | (Inl e, st2) \<Rightarrow> False)
      | (Inl e, st1) \<Rightarrow> False"
    unfolding i1 i2 prod.case sum.case
    using old empty pos later
    by (simp add: stringify_def render_fragment_of)
next
  show "case id' init_store cssSelectorBuilder ''a'' of
      (Inr h1, st1) \<Rightarrow>
        (case class' st1 cssSelectorBuilder ''b'' of
           (Inr h2, st2) \<Rightarrow>
              fst (stringify st2 h1) = ''#a'' \<and>
              fst (stringify (snd (stringify st2 h1)) h2) = ''.b''
         | (Inl e, st2) \<Rightarrow> False)
    | (Inl e, st1) \<Rightarrow> False"
    by (simp add: eval_defs)
qed

theorem facade_chains_independent_witness:
  "arrays (heap (run_client
      [Append cssSelectorBuilder (ElementKind, ''div''),
       Append \<lparr>elems = Suc 0, created = True\<rparr> (IdKind, ''main''),
       Append \<lparr>elems = Suc 0, created = True\<rparr> (ElementKind, ''p''),
       Combine [Sel \<lparr>elems = Suc 0, created = True\<rparr>, Str ''>'', Sel cssSelectorBuilder],
       Append cssSelectorBuilder (ClassKind, ''c''),
       Render \<lparr>elems = Suc (Suc 0), created = True\<rparr>])) (elems cssSelectorBuilder) = [] \<and>
   (case invoke (heap (run_client
      [Append cssSelectorBuilder (ElementKind, ''div''),
       Append \<lparr>elems = Suc 0, created = True\<rparr> (IdKind, ''main''),
       Append \<lparr>elems = Suc 0, created = True\<rparr> (ElementKind, ''p''),
       Combine [Sel \<lparr>elems = Suc 0, created = True\<rparr>, Str ''>'', Sel cssSelectorBuilder],
       Append cssSelectorBuilder (ClassKind, ''c''),
       Render \<lparr>elems = Suc (Suc 0), created = True\<rparr>])) cssSelectorBuilder (IdKind, ''a'') of
      (Inr h1, st1) \<Rightarrow>
        (case invoke st1 cssSelectorBuilder (ClassKind, ''b'') of
           (Inr h2, st2) \<Rightarrow>
              elems h1 \<noteq> elems h2 \<and>
              fst (stringify st2 h2) = ''.b'' \<and>
              fst (stringify (snd (stringify st2 h2)) h1) = ''#a''
         | (Inl e, st2) \<Rightarrow> False)
    | (Inl e, st1) \<Rightarrow> False)"
proof -
  let ?ops = "[Append cssSelectorBuilder (ElementKind, ''div''),
       Append \<lparr>elems = Suc 0, created = True\<rparr> (IdKind, ''main''),
       Append \<lparr>elems = Suc 0, created = True\<rparr> (ElementKind, ''p''),
       Combine [Sel \<lparr>elems = Suc 0, created = True\<rparr>, Str ''>'', Sel cssSelectorBuilder],
       Append cssSelectorBuilder (ClassKind, ''c''),
       Render \<lparr>elems = Suc (Suc 0), created = True\<rparr>]"
  from facade_chains_independent [THEN conjunct1, rule_format, of ?ops]
  have 1: "arrays (heap (run_client ?ops)) (elems cssSelectorBuilder) = []" .
  from facade_chains_independent [THEN conjunct2, THEN conjunct1, rule_format,
      of ?ops "(IdKind, ''a'')" "(ClassKind, ''b'')"]
  have 2: "case invoke (heap (run_client ?ops)) cssSelectorBuilder (IdKind, ''a'') of
      (Inr h1, st1) \<Rightarrow>
        (case invoke st1 cssSelectorBuilder (ClassKind, ''b'') of
           (Inr h2, st2) \<Rightarrow>
              elems h1 \<noteq> elems h2 \<and>
              fst (stringify st2 h2) = ''.b'' \<and>
              fst (stringify (snd (stringify st2 h2)) h1) = ''#a''
         | (Inl e, st2) \<Rightarrow> False)
    | (Inl e, st1) \<Rightarrow> False"
    by (auto simp: spec_render_def split: prod.splits sum.splits)
  from 1 2 show ?thesis by (rule conjI)
qed

subsection \<open>Combinations\<close>

text \<open>
  C4: \<open>combine(...)\<close> renders each selector argument at once by its \<open>stringify()\<close> (which
  empties that chain), puts exactly one space on each side of each token string,
  concatenates the pieces in argument order and returns an object whose \<open>stringify()\<close>
  returns that text, computed from the stored pieces alone. In particular
  \<open>combine(element('div').id('main'), '+', element('table').id('data'))\<close> renders
  \<open>div#main + table#data\<close>.
\<close>

theorem combine_renders_eagerly:
  "(\<forall>st args. stringify_combined (fst (combine st args)) = combined_text st args \<and>
       (\<forall>b. Sel b \<in> set args \<longrightarrow> arrays (snd (combine st args)) (elems b) = [])) \<and>
   (case chain init_store cssSelectorBuilder [(ElementKind, ''div''), (IdKind, ''main'')] of
      (Inr x, st1) \<Rightarrow>
        (case chain st1 cssSelectorBuilder [(ElementKind, ''table''), (IdKind, ''data'')] of
           (Inr y, st2) \<Rightarrow>
              stringify_combined (fst (combine st2 [Sel x, Str ''+'', Sel y])) = ''div#main + table#data''
         | (Inl e, st2) \<Rightarrow> False)
    | (Inl e, st1) \<Rightarrow> False)"
proof (intro conjI allI impI)
  fix st args
  show "stringify_combined (fst (combine st args)) = combined_text st args"
    by (simp add: combine_def stringify_combined_def split_beta combine_map_text)
next
  fix st args b
  assume "Sel b \<in> set args"
  then show "arrays (snd (combine st args)) (elems b) = []"
    by (simp add: combine_def split_beta combine_map_empties)
next
  show "case chain init_store cssSelectorBuilder [(ElementKind, ''div''), (IdKind, ''main'')] of
      (Inr x, st1) \<Rightarrow>
        (case chain st1 cssSelectorBuilder [(ElementKind, ''table''), (IdKind, ''data'')] of
           (Inr y, st2) \<Rightarrow>
              stringify_combined (fst (combine st2 [Sel x, Str ''+'', Sel y])) = ''div#main + table#data''
         | (Inl e, st2) \<Rightarrow> False)
    | (Inl e, st1) \<Rightarrow> False"
    by (simp add: eval_defs combine_def stringify_combined_def)
qed

theorem combine_renders_eagerly_witness:
  "(case chain init_store cssSelectorBuilder [(ElementKind, ''tr''), (PseudoClassKind, ''nth-of-type(even)'')] of
      (Inr x, st1) \<Rightarrow>
        (case chain st1 cssSelectorBuilder [(ElementKind, ''td''), (PseudoClassKind, ''nth-of-type(even)'')] of
           (Inr y, st2) \<Rightarrow>
              stringify_combined (fst (combine st2 [Sel x, Str '' '', Sel y]))
                = ''tr:nth-of-type(even)   td:nth-of-type(even)'' \<and>
              combined_text st2 [Sel x, Str '' '', Sel y]
                = ''tr:nth-of-type(even)   td:nth-of-type(even)'' \<and>
              arrays (snd (combine st2 [Sel x, Str '' '', Sel y])) (elems x) = [] \<and>
              fst (stringify (snd (combine st2 [Sel x, Str '' '', Sel y])) y) = ''''
         | (Inl e, st2) \<Rightarrow> False)
    | (Inl e, st1) \<Rightarrow> False)"
proof -
  let ?x = "\<lparr>elems = Suc 0, created = True\<rparr>"
  let ?y = "\<lparr>elems = Suc (Suc 0), created = True\<rparr>"
  let ?st1 = "snd (chain init_store cssSelectorBuilder
      [(ElementKind, ''tr''), (PseudoClassKind, ''nth-of-type(even)'')])"
  let ?st2 = "snd (chain ?st1 cssSelectorBuilder
      [(ElementKind, ''td''), (PseudoClassKind, ''nth-of-type(even)'')])"
  let ?args = "[Sel ?x, Str '' '', Sel ?y]"
  have c1: "fst (chain init_store cssSelectorBuilder
      [(ElementKind, ''tr''), (PseudoClassKind, ''nth-of-type(even)'')]) = Inr ?x"
    by (simp add: eval_defs)
  have c2: "fst (chain ?st1 cssSelectorBuilder
      [(ElementKind, ''td''), (PseudoClassKind, ''nth-of-type(even)'')]) = Inr ?y"
    by (simp add: eval_defs)
  have t: "combined_text ?st2 ?args = ''tr:nth-of-type(even)   td:nth-of-type(even)''"
    by (simp add: eval_defs)
  have mx: "Sel ?x \<in> set ?args" and my: "Sel ?y \<in> set ?args" by simp_all
  note inst = combine_renders_eagerly [THEN conjunct1, rule_format, of ?st2 ?args]
  from inst [THEN conjunct1] t
  have 1: "stringify_combined (fst (combine ?st2 ?args)) = ''tr:nth-of-type(even)   td:nth-of-type(even)''"
    by simp
  from inst [THEN conjunct2, rule_format, OF mx]
  have 2: "arrays (snd (combine ?st2 ?args)) (elems ?x) = []" .
  from inst [THEN conjunct2, rule_format, OF my]
  have 3: "fst (stringify (snd (combine ?st2 ?args)) ?y) = ''''"
    by (simp add: stringify_text)
  from 1 2 3 t show ?thesis
    by (simp add: eval_defs combine_def stringify_combined_def)
qed

subsection \<open>The JSON bridge\<close>




end
